theory Spec2Isabelle
  imports Main
begin

section \<open>The repair policy table of SES (dataPropertiesToRepair.js)\<close>

text \<open>
  The module \<^verbatim>\<open>src/bundle/dataPropertiesToRepair.js\<close> exports one value: a
  "recursively defined JSON record" (its own words) that says which data properties of the
  primordials are to be turned into accessors before hardening.

  A JavaScript value as it can be written in such a literal. A record keeps its
  properties in the order in which the literal lists them, so it is an association list.
\<close>

datatype jsval =
    JUndefined
  | JNull
  | JBool bool
  | JNum int
  | JStr string
  | JArray "jsval list"
  | JRecord "(string \<times> jsval) list"

text \<open>\<^verbatim>\<open>const t = true;\<close> (line 68).\<close>

definition t :: jsval where
  "t = JBool True"

text \<open>\<^verbatim>\<open>export default { ... }\<close> (lines 70 to 143), property by property.\<close>

definition dataPropertiesToRepair :: jsval where
  "dataPropertiesToRepair = JRecord [
     (''namedIntrinsics'', JRecord [
        (''Object'', JRecord [
           (''prototype'', JStr ''*'')]),
        (''Array'', JRecord [
           (''prototype'', JStr ''*'')]),
        (''Function'', JRecord [
           (''prototype'', JRecord [
              (''constructor'', t),
              (''bind'', t),
              (''name'', t),
              (''toString'', t)])]),
        (''Error'', JRecord [
           (''prototype'', JRecord [
              (''constructor'', t),
              (''message'', t),
              (''name'', t),
              (''toString'', t)])]),
        (''TypeError'', JRecord [
           (''prototype'', JRecord [
              (''constructor'', t),
              (''name'', t)])]),
        (''Promise'', JRecord [
           (''prototype'', JRecord [
              (''constructor'', t)])])]),
     (''anonIntrinsics'', JRecord [
        (''TypedArray'', JRecord [
           (''prototype'', JStr ''*'')]),
        (''GeneratorFunction'', JRecord [
           (''prototype'', JRecord [
              (''constructor'', t),
              (''name'', t),
              (''toString'', t)])]),
        (''AsyncFunction'', JRecord [
           (''prototype'', JRecord [
              (''constructor'', t),
              (''name'', t),
              (''toString'', t)])]),
        (''AsyncGeneratorFunction'', JRecord [
           (''prototype'', JRecord [
              (''constructor'', t),
              (''name'', t),
              (''toString'', t)])]),
        (''IteratorPrototype'', JStr ''*'')])]"

subsection \<open>Reading the table\<close>

text \<open>
  The dispositions that the module's documentation (lines 42 to 62) gives a value of the
  table: another record, \<^verbatim>\<open>true\<close>, \<^verbatim>\<open>"*"\<close>, or falsey. Anything else has no
  documented meaning. The falsey values of JavaScript are \<^verbatim>\<open>undefined\<close>, \<^verbatim>\<open>null\<close>,
  \<^verbatim>\<open>false\<close>, zero, the empty string and NaN; numbers are integers here, so NaN is not
  a value of the model.
\<close>

fun falsey :: "jsval \<Rightarrow> bool" where
  "falsey JUndefined = True"
| "falsey JNull = True"
| "falsey (JBool b) = (\<not> b)"
| "falsey (JNum n) = (n = 0)"
| "falsey (JStr s) = (s = [])"
| "falsey (JArray xs) = False"
| "falsey (JRecord kvs) = False"

datatype shape = IsRecord | IsTrue | IsStar | IsFalsey | IsOther

fun shape_of :: "jsval \<Rightarrow> shape" where
  "shape_of (JRecord kvs) = IsRecord"
| "shape_of (JArray xs) = IsOther"
| "shape_of v =
     (if v = JBool True then IsTrue
      else if v = JStr ''*'' then IsStar
      else if falsey v then IsFalsey
      else IsOther)"

text \<open>Own property names of a record, in order; a value that is no record has none.\<close>

fun keys :: "jsval \<Rightarrow> string list" where
  "keys (JRecord kvs) = map fst kvs"
| "keys v = []"

text \<open>
  Property access \<^verbatim>\<open>v[k]\<close> on a value of the table: the property's value, or
  \<^verbatim>\<open>undefined\<close> where there is none. (No record of the table lists a key twice, see
  \<open>table_keys_distinct\<close>, so the first entry with the key is the only one.)
\<close>

fun get :: "jsval \<Rightarrow> string \<Rightarrow> jsval" where
  "get (JRecord kvs) k = (case map_of kvs k of Some v \<Rightarrow> v | None \<Rightarrow> JUndefined)"
| "get v k = JUndefined"

text \<open>Following a path of property names from a value.\<close>

fun get_path :: "jsval \<Rightarrow> string list \<Rightarrow> jsval" where
  "get_path v [] = v"
| "get_path v (k # ks) = get_path (get v k) ks"

text \<open>
  Every value reachable from a value through record properties, the value itself
  included, each with the path of property names that leads to it (depth first, in the
  order of the literal).
\<close>

fun nodes :: "string list \<Rightarrow> jsval \<Rightarrow> (string list \<times> jsval) list"
  and nodes_props :: "string list \<Rightarrow> (string \<times> jsval) list \<Rightarrow> (string list \<times> jsval) list" where
  "nodes p (JRecord kvs) = (p, JRecord kvs) # nodes_props p kvs"
| "nodes p JUndefined = [(p, JUndefined)]"
| "nodes p JNull = [(p, JNull)]"
| "nodes p (JBool b) = [(p, JBool b)]"
| "nodes p (JNum n) = [(p, JNum n)]"
| "nodes p (JStr s) = [(p, JStr s)]"
| "nodes p (JArray xs) = [(p, JArray xs)]"
| "nodes_props p [] = []"
| "nodes_props p ((k, v) # kvs) = nodes (p @ [k]) v @ nodes_props p kvs"

text \<open>The leaves: the reachable values that are not records.\<close>

definition leaves :: "jsval \<Rightarrow> (string list \<times> jsval) list" where
  "leaves v = filter (\<lambda>(p, x). shape_of x \<noteq> IsRecord) (nodes [] v)"

text \<open>Nesting depth: the longest chain of property names below a value.\<close>

fun depth :: "jsval \<Rightarrow> nat"
  and depth_props :: "(string \<times> jsval) list \<Rightarrow> nat" where
  "depth (JRecord kvs) = depth_props kvs"
| "depth JUndefined = 0"
| "depth JNull = 0"
| "depth (JBool b) = 0"
| "depth (JNum n) = 0"
| "depth (JStr s) = 0"
| "depth (JArray xs) = 0"
| "depth_props [] = 0"
| "depth_props ((k, v) # kvs) = max (Suc (depth v)) (depth_props kvs)"

text \<open>The two categories of the root record.\<close>

definition namedIntrinsics :: jsval where
  "namedIntrinsics = get dataPropertiesToRepair ''namedIntrinsics''"

definition anonIntrinsics :: jsval where
  "anonIntrinsics = get dataPropertiesToRepair ''anonIntrinsics''"

subsection \<open>Names of the language standard\<close>

text \<open>
  The table names primordials of ECMAScript; which names are bound on the global object is
  fixed by the language standard, not by this module. The constructor properties of the
  global object (ECMA-262, 9th edition, clause 18.3):
\<close>

definition global_constructor_names :: "string list" where
  "global_constructor_names =
    [''Array'', ''ArrayBuffer'', ''Boolean'', ''DataView'', ''Date'', ''Error'',
     ''EvalError'', ''Float32Array'', ''Float64Array'', ''Function'', ''Int8Array'',
     ''Int16Array'', ''Int32Array'', ''Map'', ''Number'', ''Object'', ''Promise'',
     ''Proxy'', ''RangeError'', ''ReferenceError'', ''RegExp'', ''Set'',
     ''SharedArrayBuffer'', ''String'', ''Symbol'', ''SyntaxError'', ''TypeError'',
     ''Uint8Array'', ''Uint8ClampedArray'', ''Uint16Array'', ''Uint32Array'',
     ''URIError'', ''WeakMap'', ''WeakSet'']"

text \<open>
  The subtypes of \<^verbatim>\<open>Error\<close> among them: the NativeError constructors (ECMA-262, clause
  19.5.5).
\<close>

definition native_error_names :: "string list" where
  "native_error_names =
    [''EvalError'', ''RangeError'', ''ReferenceError'', ''SyntaxError'', ''TypeError'',
     ''URIError'']"

section \<open>The exported value as objects in a store\<close>

text \<open>
  Evaluating an object literal creates a fresh object for every pair of braces; a
  property then holds a reference to the object, not the object. Whether the exported
  table is a tree is a question about these references, so the evaluation of the literal
  is modelled with an explicit store: an address is an index into the list of objects
  created so far.
\<close>

type_synonym addr = nat

datatype val = VUndefined | VNull | VBool bool | VNum int | VStr string | VRef addr

text \<open>
  A property key: a string, a symbol, or an array index (standing for its canonical
  numeric string).
\<close>

datatype pkey = StrKey string | IdxKey nat | SymKey string

type_synonym obj = "(pkey \<times> val) list"

type_synonym store = "obj list"

text \<open>
  The object is created first and its properties are defined in the order of the literal
  (ECMA-262, ObjectLiteral evaluation), so a record gets the next free address and its
  nested records the following ones.
\<close>

fun alloc :: "jsval \<Rightarrow> store \<Rightarrow> val \<times> store"
  and alloc_props :: "(string \<times> jsval) list \<Rightarrow> store \<Rightarrow> obj \<times> store"
  and alloc_elems :: "nat \<Rightarrow> jsval list \<Rightarrow> store \<Rightarrow> obj \<times> store" where
  "alloc JUndefined s = (VUndefined, s)"
| "alloc JNull s = (VNull, s)"
| "alloc (JBool b) s = (VBool b, s)"
| "alloc (JNum n) s = (VNum n, s)"
| "alloc (JStr x) s = (VStr x, s)"
| "alloc (JRecord kvs) s =
     (case alloc_props kvs (s @ [[]]) of
        (props, s') \<Rightarrow> (VRef (length s), s'[length s := props]))"
| "alloc (JArray xs) s =
     (case alloc_elems 0 xs (s @ [[]]) of
        (props, s') \<Rightarrow> (VRef (length s), s'[length s := props]))"
| "alloc_props [] s = ([], s)"
| "alloc_props ((k, v) # kvs) s =
     (case alloc v s of
        (x, s1) \<Rightarrow> (case alloc_props kvs s1 of
           (props, s2) \<Rightarrow> ((StrKey k, x) # props, s2)))"
| "alloc_elems i [] s = ([], s)"
| "alloc_elems i (v # vs) s =
     (case alloc v s of
        (x, s1) \<Rightarrow> (case alloc_elems (Suc i) vs s1 of
           (props, s2) \<Rightarrow> ((IdxKey i, x) # props, s2)))"

text \<open>The module's default export: the literal evaluated in an empty store.\<close>

definition exported :: "val \<times> store" where
  "exported = alloc dataPropertiesToRepair []"

text \<open>The objects that the properties of an object refer to.\<close>

fun referents :: "obj \<Rightarrow> addr list" where
  "referents [] = []"
| "referents ((k, VRef b) # ps) = b # referents ps"
| "referents ((k, v) # ps) = referents ps"

text \<open>
  The references of a store, as pairs (holder, referent); \<open>edges_from a s\<close> numbers the
  objects of \<open>s\<close> from address \<open>a\<close>.
\<close>

fun edges_from :: "addr \<Rightarrow> store \<Rightarrow> (addr \<times> addr) list" where
  "edges_from a [] = []"
| "edges_from a (ob # s) = map (Pair a) (referents ob) @ edges_from (Suc a) s"

definition edges :: "store \<Rightarrow> (addr \<times> addr) list" where
  "edges s = edges_from 0 s"

text \<open>
  \<open>leafward n s v\<close>: every chain of properties that starts at \<open>v\<close> ends, after at most
  \<open>n\<close> steps, in \<^verbatim>\<open>true\<close> or \<^verbatim>\<open>"*"\<close>. A record without properties, a dangling
  reference or any other value ends a chain without a leaf.
\<close>

fun leafward :: "nat \<Rightarrow> store \<Rightarrow> val \<Rightarrow> bool" where
  "leafward n s (VBool b) = b"
| "leafward n s (VStr x) = (x = ''*'')"
| "leafward (Suc n) s (VRef a) =
     (a < length s \<and> s ! a \<noteq> [] \<and> list_all (\<lambda>(k, v). leafward n s v) (s ! a))"
| "leafward n s v = False"

section \<open>The repair engine, from its specification\<close>

text \<open>
  The module is the policy table only; the engine that interprets the table is not part
  of it. Properties of the engine are therefore stated for the following model, which
  follows the engine's specification (its sections 3, 4 and 6) step by step.
\<close>

subsection \<open>Policy trees\<close>

text \<open>
  Modelled from the spec: the engine's code is missing; this is the PolicyNode of the data
  model, a tagged variant of \<open>Subtree\<close> (a mapping from names to nodes, in its defined
  order), \<open>RepairLeaf\<close>, \<open>WildcardLeaf\<close> and \<open>Skip\<close>.
\<close>

datatype PolicyNode =
    Subtree "(string \<times> PolicyNode) list"
  | RepairLeaf
  | WildcardLeaf
  | Skip

text \<open>
  Modelled from the spec: the policy tree input format. A nested mapping is a subtree,
  \<^verbatim>\<open>true\<close> a repair leaf, \<^verbatim>\<open>"*"\<close> a wildcard leaf; a falsy value is skipped, and so is
  an unrecognized leaf value.
\<close>

fun policy_of :: "jsval \<Rightarrow> PolicyNode"
  and policy_of_props :: "(string \<times> jsval) list \<Rightarrow> (string \<times> PolicyNode) list" where
  "policy_of (JRecord kvs) = Subtree (policy_of_props kvs)"
| "policy_of (JBool b) = (if b then RepairLeaf else Skip)"
| "policy_of (JStr s) = (if s = ''*'' then WildcardLeaf else Skip)"
| "policy_of JUndefined = Skip"
| "policy_of JNull = Skip"
| "policy_of (JNum n) = Skip"
| "policy_of (JArray xs) = Skip"
| "policy_of_props [] = []"
| "policy_of_props ((k, v) # kvs) = (k, policy_of v) # policy_of_props kvs"

subsection \<open>Runtime objects\<close>

text \<open>
  Modelled from the spec: the objects of the host runtime that the engine traverses and
  whose property descriptors it changes in place. A data property holds a value and the
  attributes writable, enumerable, configurable. An accessor property has no value slot;
  the model keeps what a read through its getter yields, and the attributes enumerable,
  configurable. (The setter is not run by the repair pass and is not modelled.)
\<close>

datatype descriptor =
    DataDesc val bool bool bool
  | AccessorDesc val bool bool

text \<open>
  Modelled from the spec: an object of the runtime, with its own properties (in the order
  in which its own keys are enumerated) and its prototype. The heap is the list of all
  objects; an address is an index into it and stands for the object's identity.
\<close>

record robject =
  own :: "(pkey \<times> descriptor) list"
  proto :: "addr option"

type_synonym heap = "robject list"

text \<open>Modelled from the spec: the value that reading a property yields.\<close>

fun read_desc :: "descriptor \<Rightarrow> val" where
  "read_desc (DataDesc v w e c) = v"
| "read_desc (AccessorDesc g e c) = g"

text \<open>
  Modelled from the spec: \<open>value = root[key]\<close>, "an own or inherited lookup matching
  ordinary property access". The lookup follows the prototype chain; a chain is no longer
  than the heap has objects, which bounds the walk.
\<close>

fun get_from :: "nat \<Rightarrow> heap \<Rightarrow> addr \<Rightarrow> pkey \<Rightarrow> val" where
  "get_from 0 h a k = VUndefined"
| "get_from (Suc n) h a k =
     (if a < length h then
        (case map_of (own (h ! a)) k of
           Some d \<Rightarrow> read_desc d
         | None \<Rightarrow> (case proto (h ! a) of
                      None \<Rightarrow> VUndefined
                    | Some p \<Rightarrow> get_from n h p k))
      else VUndefined)"

definition get_prop :: "heap \<Rightarrow> addr \<Rightarrow> pkey \<Rightarrow> val" where
  "get_prop h a k = get_from (length h) h a k"

text \<open>
  Modelled from the spec: "value is an object". A value is an object when it refers to an
  object of the heap; \<^verbatim>\<open>undefined\<close>, \<^verbatim>\<open>null\<close> and the other primitive values are not.
\<close>

fun as_object :: "heap \<Rightarrow> val \<Rightarrow> addr option" where
  "as_object h (VRef a) = (if a < length h then Some a else None)"
| "as_object h v = None"

subsection \<open>Outcomes and the visit guard\<close>

text \<open>
  Modelled from the spec: RepairOutcome, one record per attempted repair, a path of
  property names from a root and a result.
\<close>

datatype result = Repaired | AlreadyAccessor | PropertyAbsent | NonConfigurable | RootAbsent

type_synonym path = "pkey list"

type_synonym RepairOutcome = "path \<times> result"

text \<open>
  Modelled from the spec: the state of one walk. Besides the heap it holds the VisitGuard:
  the objects already expanded under a wildcard leaf, and the pairs of an object and a
  policy node already visited by subtree recursion. A policy node is identified by its
  path from the root of the policy tree.
\<close>

record walk =
  heap :: heap
  wildcard_visited :: "addr set"
  recursion_visited :: "(addr \<times> path) set"

subsection \<open>PropertyRepairer\<close>

text \<open>
  Modelled from the spec: redefining one own property, which keeps its place among the
  own keys (the first entry with that key is replaced).
\<close>

fun replace_desc :: "pkey \<Rightarrow> descriptor \<Rightarrow> (pkey \<times> descriptor) list
    \<Rightarrow> (pkey \<times> descriptor) list" where
  "replace_desc k d [] = []"
| "replace_desc k d ((k', d') # ps) =
     (if k' = k then (k, d) # ps else (k', d') # replace_desc k d ps)"

text \<open>
  Modelled from the spec: \<open>repair(object, key)\<close> of section 4.1. No own property:
  PropertyAbsent. Already an accessor: AlreadyAccessor. A data property that is not
  configurable: NonConfigurable. None of these changes anything. Otherwise the data
  property is replaced by an accessor whose getter yields the original value, with the
  original enumerability, and configurable: Repaired.
\<close>

definition repair :: "heap \<Rightarrow> addr \<Rightarrow> pkey \<Rightarrow> result \<times> heap" where
  "repair h a k =
     (if a < length h then
        (case map_of (own (h ! a)) k of
           None \<Rightarrow> (PropertyAbsent, h)
         | Some (AccessorDesc g e c) \<Rightarrow> (AlreadyAccessor, h)
         | Some (DataDesc v w e c) \<Rightarrow>
             if \<not> c then (NonConfigurable, h)
             else (Repaired,
                   h[a := (h ! a)\<lparr>own := replace_desc k (AccessorDesc v e True)
                                           (own (h ! a))\<rparr>]))
      else (PropertyAbsent, h))"

subsection \<open>WildcardExpander\<close>

text \<open>
  Modelled from the spec: the loop of section 4.2 over the snapshot of keys, one repair
  per key, outcomes accumulated.
\<close>

fun repair_keys :: "addr \<Rightarrow> path \<Rightarrow> pkey list \<Rightarrow> heap \<Rightarrow> RepairOutcome list \<times> heap" where
  "repair_keys a p [] h = ([], h)"
| "repair_keys a p (k # ks) h =
     (case repair h a k of
        (r, h1) \<Rightarrow> (case repair_keys a p ks h1 of
           (outs, h2) \<Rightarrow> ((p @ [k], r) # outs, h2)))"

text \<open>
  Modelled from the spec: \<open>expandWildcard(object)\<close> of section 4.2. An object already in
  the wildcard set gives no outcome. Otherwise the own keys are listed once, every key is
  repaired, and the object is added to the wildcard set.
\<close>

definition expandWildcard :: "addr \<Rightarrow> path \<Rightarrow> walk \<Rightarrow> RepairOutcome list \<times> walk" where
  "expandWildcard a p w =
     (if a \<in> wildcard_visited w then ([], w)
      else
        (case repair_keys a p (map fst (own (heap w ! a))) (heap w) of
           (outs, h') \<Rightarrow>
             (outs, w\<lparr>heap := h', wildcard_visited := insert a (wildcard_visited w)\<rparr>)))"

text \<open>
  Modelled from the spec: a wildcard leaf met at a value (section 4.3). The value's object
  is expanded; a value that is no object gives RootAbsent.
\<close>

definition expand_value :: "val \<Rightarrow> path \<Rightarrow> walk \<Rightarrow> RepairOutcome list \<times> walk" where
  "expand_value v p w =
     (case as_object (heap w) v of
        None \<Rightarrow> ([(p, RootAbsent)], w)
      | Some a \<Rightarrow> expandWildcard a p w)"

subsection \<open>RepairPlanner\<close>

text \<open>
  Modelled from the spec: the Subtree case of \<open>plan\<close> in section 4.3, for the object at
  \<open>a\<close>: the entries of the mapping are taken in order. For an entry, a key and a child
  policy, the value of the property is looked up; a repair leaf repairs the property on
  the object itself; a wildcard leaf expands the value; a subtree recurses into the value
  if it is an object and the pair of this object and this policy node was not visited
  before (the pair is then recorded), gives RootAbsent if the value is no object, and is
  passed over silently otherwise; Skip does nothing.
\<close>

fun plan_subtree :: "(string \<times> PolicyNode) list \<Rightarrow> addr \<Rightarrow> path \<Rightarrow> walk
    \<Rightarrow> RepairOutcome list \<times> walk"
  and plan_entry :: "string \<times> PolicyNode \<Rightarrow> addr \<Rightarrow> path \<Rightarrow> walk
    \<Rightarrow> RepairOutcome list \<times> walk" where
  "plan_subtree [] a p w = ([], w)"
| "plan_subtree (entry # rest) a p w =
     (case plan_entry entry a p w of
        (outs1, w1) \<Rightarrow>
          (case plan_subtree rest a p w1 of
             (outs2, w2) \<Rightarrow> (outs1 @ outs2, w2)))"
| "plan_entry (k, RepairLeaf) a p w =
     (case repair (heap w) a (StrKey k) of
        (r, h') \<Rightarrow> ([(p @ [StrKey k], r)], w\<lparr>heap := h'\<rparr>))"
| "plan_entry (k, WildcardLeaf) a p w =
     expand_value (get_prop (heap w) a (StrKey k)) (p @ [StrKey k]) w"
| "plan_entry (k, Subtree m) a p w =
     (case as_object (heap w) (get_prop (heap w) a (StrKey k)) of
        None \<Rightarrow> ([(p @ [StrKey k], RootAbsent)], w)
      | Some b \<Rightarrow>
          if (b, p @ [StrKey k]) \<in> recursion_visited w then ([], w)
          else plan_subtree m b (p @ [StrKey k])
                 (w\<lparr>recursion_visited :=
                      insert (b, p @ [StrKey k]) (recursion_visited w)\<rparr>))"
| "plan_entry (k, Skip) a p w = ([], w)"

text \<open>
  Modelled from the spec: \<open>plan(root, policyNode, path)\<close> of section 4.3, the state machine
  over the variants of the node. A repair leaf is handled one level up, by the subtree
  that holds it: met without an owner it repairs nothing.
\<close>

definition plan :: "val \<Rightarrow> PolicyNode \<Rightarrow> path \<Rightarrow> walk \<Rightarrow> RepairOutcome list \<times> walk" where
  "plan root node p w =
     (case node of
        Skip \<Rightarrow> ([], w)
      | WildcardLeaf \<Rightarrow> expand_value root p w
      | RepairLeaf \<Rightarrow> ([], w)
      | Subtree m \<Rightarrow>
          (case as_object (heap w) root of
             None \<Rightarrow> ([(p, RootAbsent)], w)
           | Some a \<Rightarrow> plan_subtree m a p w))"

subsection \<open>The entry point\<close>

text \<open>
  Modelled from the spec: RootMapping, from a top-level name to a mapping from intrinsic
  names to the objects they denote; an entry may be missing.
\<close>

type_synonym RootMapping = "string \<Rightarrow> string \<Rightarrow> addr option"

text \<open>
  Modelled from the spec: the intrinsics of one category, each planned against its root.
  A missing root is \<^verbatim>\<open>undefined\<close>, which \<open>plan\<close> reports as RootAbsent under a subtree
  or a wildcard.
\<close>

fun plan_roots :: "(string \<rightharpoonup> addr) \<Rightarrow> string \<Rightarrow> (string \<times> PolicyNode) list \<Rightarrow> walk
    \<Rightarrow> RepairOutcome list \<times> walk" where
  "plan_roots roots cat [] w = ([], w)"
| "plan_roots roots cat ((name, node) # rest) w =
     (case plan (case roots name of None \<Rightarrow> VUndefined | Some a \<Rightarrow> VRef a) node
             [StrKey cat, StrKey name] w of
        (outs1, w1) \<Rightarrow>
          (case plan_roots roots cat rest w1 of
             (outs2, w2) \<Rightarrow> (outs1 @ outs2, w2)))"

text \<open>
  Modelled from the spec: the policy of a top-level category, the subtree under its name;
  anything else there is skipped.
\<close>

fun category :: "PolicyNode \<Rightarrow> string \<Rightarrow> (string \<times> PolicyNode) list" where
  "category (Subtree cats) cat =
     (case map_of cats cat of Some (Subtree m) \<Rightarrow> m | _ \<Rightarrow> [])"
| "category node cat = []"

text \<open>
  Modelled from the spec: the engine's entry point. It takes the policy tree and the
  root mapping, starts with a fresh visit guard, walks the two categories
  \<^verbatim>\<open>namedIntrinsics\<close> and \<^verbatim>\<open>anonIntrinsics\<close> against their roots, and returns the combined
  list of outcomes; the heap is changed in place.
\<close>

definition repair_pass :: "PolicyNode \<Rightarrow> RootMapping \<Rightarrow> heap \<Rightarrow> RepairOutcome list \<times> heap" where
  "repair_pass policy roots h =
     (case plan_roots (roots ''namedIntrinsics'') ''namedIntrinsics''
             (category policy ''namedIntrinsics'')
             \<lparr>heap = h, wildcard_visited = {}, recursion_visited = {}\<rparr> of
        (outs1, w1) \<Rightarrow>
          (case plan_roots (roots ''anonIntrinsics'') ''anonIntrinsics''
                  (category policy ''anonIntrinsics'') w1 of
             (outs2, w2) \<Rightarrow> (outs1 @ outs2, heap w2)))"

text \<open>
  What a second attempt reports for an outcome of a first: a repaired property is by
  then an accessor, every other result repeats.
\<close>

fun again :: "RepairOutcome \<Rightarrow> RepairOutcome" where
  "again (p, r) = (p, if r = Repaired then AlreadyAccessor else r)"

subsection \<open>Heaps that differ by repairs\<close>

text \<open>
  \<open>desc_le d d'\<close>: the descriptor \<open>d'\<close> is \<open>d\<close>, or it is the accessor that a repair puts in
  the place of the configurable data property \<open>d\<close>. The relation is lifted to the own
  properties of an object (key by key, in order), to objects and to heaps.
\<close>

definition desc_le :: "descriptor \<Rightarrow> descriptor \<Rightarrow> bool" where
  "desc_le d d' \<longleftrightarrow>
     d' = d \<or> (\<exists>v w e. d = DataDesc v w e True \<and> d' = AccessorDesc v e True)"

definition own_le :: "(pkey \<times> descriptor) list \<Rightarrow> (pkey \<times> descriptor) list \<Rightarrow> bool" where
  "own_le ps ps' \<longleftrightarrow> list_all2 (\<lambda>x y. fst y = fst x \<and> desc_le (snd x) (snd y)) ps ps'"

definition obj_le :: "robject \<Rightarrow> robject \<Rightarrow> bool" where
  "obj_le ob ob' \<longleftrightarrow> proto ob' = proto ob \<and> own_le (own ob) (own ob')"

definition heap_le :: "heap \<Rightarrow> heap \<Rightarrow> bool" where
  "heap_le h h' \<longleftrightarrow> list_all2 obj_le h h'"

text \<open>
  \<open>settles f w\<close>: the step \<open>f\<close> of a walk, started in \<open>w\<close>, only repairs; and started instead
  on any heap that has at least the repairs of its own final heap, it visits the same
  objects, changes nothing, and reports each outcome again, Repaired turned into
  AlreadyAccessor.
\<close>

definition settles :: "(walk \<Rightarrow> RepairOutcome list \<times> walk) \<Rightarrow> walk \<Rightarrow> bool" where
  "settles f w \<longleftrightarrow>
     heap_le (heap w) (heap (snd (f w))) \<and>
     (\<forall>hf. heap_le (heap (snd (f w))) hf \<longrightarrow>
        f (w\<lparr>heap := hf\<rparr>) = (map again (fst (f w)), (snd (f w))\<lparr>heap := hf\<rparr>))"

subsection \<open>A sample runtime\<close>

text \<open>
  A runtime with the \<^verbatim>\<open>Error\<close> constructor (address 0) and \<^verbatim>\<open>Error.prototype\<close>
  (address 1) only, in which \<^verbatim>\<open>Error.prototype.message\<close> was made non-configurable
  before the pass runs.
\<close>

definition sample_heap :: heap where
  "sample_heap =
    [\<lparr>own = [(StrKey ''prototype'', DataDesc (VRef 1) False False False)], proto = None\<rparr>,
     \<lparr>own = [(StrKey ''constructor'', DataDesc (VRef 0) True False True),
              (StrKey ''message'', DataDesc (VStr '''') True False False),
              (StrKey ''name'', DataDesc (VStr ''Error'') True False True)],
      proto = None\<rparr>]"

definition sample_roots :: RootMapping where
  "sample_roots cat = (if cat = ''namedIntrinsics'' then [''Error'' \<mapsto> 0] else Map.empty)"


section \<open>Properties of the table\<close>

subsection \<open>Evaluating the table\<close>

lemma nodes_table:
  "nodes [] dataPropertiesToRepair =
    [([], dataPropertiesToRepair),
     ([''namedIntrinsics''], namedIntrinsics),
     ([''namedIntrinsics'', ''Object''], JRecord [(''prototype'', JStr ''*'')]),
     ([''namedIntrinsics'', ''Object'', ''prototype''], JStr ''*''),
     ([''namedIntrinsics'', ''Array''], JRecord [(''prototype'', JStr ''*'')]),
     ([''namedIntrinsics'', ''Array'', ''prototype''], JStr ''*''),
     ([''namedIntrinsics'', ''Function''], JRecord [(''prototype'', JRecord [
        (''constructor'', JBool True), (''bind'', JBool True), (''name'', JBool True),
        (''toString'', JBool True)])]),
     ([''namedIntrinsics'', ''Function'', ''prototype''], JRecord [
        (''constructor'', JBool True), (''bind'', JBool True), (''name'', JBool True),
        (''toString'', JBool True)]),
     ([''namedIntrinsics'', ''Function'', ''prototype'', ''constructor''], JBool True),
     ([''namedIntrinsics'', ''Function'', ''prototype'', ''bind''], JBool True),
     ([''namedIntrinsics'', ''Function'', ''prototype'', ''name''], JBool True),
     ([''namedIntrinsics'', ''Function'', ''prototype'', ''toString''], JBool True),
     ([''namedIntrinsics'', ''Error''], JRecord [(''prototype'', JRecord [
        (''constructor'', JBool True), (''message'', JBool True), (''name'', JBool True),
        (''toString'', JBool True)])]),
     ([''namedIntrinsics'', ''Error'', ''prototype''], JRecord [
        (''constructor'', JBool True), (''message'', JBool True), (''name'', JBool True),
        (''toString'', JBool True)]),
     ([''namedIntrinsics'', ''Error'', ''prototype'', ''constructor''], JBool True),
     ([''namedIntrinsics'', ''Error'', ''prototype'', ''message''], JBool True),
     ([''namedIntrinsics'', ''Error'', ''prototype'', ''name''], JBool True),
     ([''namedIntrinsics'', ''Error'', ''prototype'', ''toString''], JBool True),
     ([''namedIntrinsics'', ''TypeError''], JRecord [(''prototype'', JRecord [
        (''constructor'', JBool True), (''name'', JBool True)])]),
     ([''namedIntrinsics'', ''TypeError'', ''prototype''], JRecord [
        (''constructor'', JBool True), (''name'', JBool True)]),
     ([''namedIntrinsics'', ''TypeError'', ''prototype'', ''constructor''], JBool True),
     ([''namedIntrinsics'', ''TypeError'', ''prototype'', ''name''], JBool True),
     ([''namedIntrinsics'', ''Promise''], JRecord [(''prototype'', JRecord [
        (''constructor'', JBool True)])]),
     ([''namedIntrinsics'', ''Promise'', ''prototype''], JRecord [
        (''constructor'', JBool True)]),
     ([''namedIntrinsics'', ''Promise'', ''prototype'', ''constructor''], JBool True),
     ([''anonIntrinsics''], anonIntrinsics),
     ([''anonIntrinsics'', ''TypedArray''], JRecord [(''prototype'', JStr ''*'')]),
     ([''anonIntrinsics'', ''TypedArray'', ''prototype''], JStr ''*''),
     ([''anonIntrinsics'', ''GeneratorFunction''], JRecord [(''prototype'', JRecord [
        (''constructor'', JBool True), (''name'', JBool True), (''toString'', JBool True)])]),
     ([''anonIntrinsics'', ''GeneratorFunction'', ''prototype''], JRecord [
        (''constructor'', JBool True), (''name'', JBool True), (''toString'', JBool True)]),
     ([''anonIntrinsics'', ''GeneratorFunction'', ''prototype'', ''constructor''],
      JBool True),
     ([''anonIntrinsics'', ''GeneratorFunction'', ''prototype'', ''name''], JBool True),
     ([''anonIntrinsics'', ''GeneratorFunction'', ''prototype'', ''toString''], JBool True),
     ([''anonIntrinsics'', ''AsyncFunction''], JRecord [(''prototype'', JRecord [
        (''constructor'', JBool True), (''name'', JBool True), (''toString'', JBool True)])]),
     ([''anonIntrinsics'', ''AsyncFunction'', ''prototype''], JRecord [
        (''constructor'', JBool True), (''name'', JBool True), (''toString'', JBool True)]),
     ([''anonIntrinsics'', ''AsyncFunction'', ''prototype'', ''constructor''], JBool True),
     ([''anonIntrinsics'', ''AsyncFunction'', ''prototype'', ''name''], JBool True),
     ([''anonIntrinsics'', ''AsyncFunction'', ''prototype'', ''toString''], JBool True),
     ([''anonIntrinsics'', ''AsyncGeneratorFunction''], JRecord [(''prototype'', JRecord [
        (''constructor'', JBool True), (''name'', JBool True), (''toString'', JBool True)])]),
     ([''anonIntrinsics'', ''AsyncGeneratorFunction'', ''prototype''], JRecord [
        (''constructor'', JBool True), (''name'', JBool True), (''toString'', JBool True)]),
     ([''anonIntrinsics'', ''AsyncGeneratorFunction'', ''prototype'', ''constructor''],
      JBool True),
     ([''anonIntrinsics'', ''AsyncGeneratorFunction'', ''prototype'', ''name''],
      JBool True),
     ([''anonIntrinsics'', ''AsyncGeneratorFunction'', ''prototype'', ''toString''],
      JBool True),
     ([''anonIntrinsics'', ''IteratorPrototype''], JStr ''*'')]"
  by (simp add: dataPropertiesToRepair_def namedIntrinsics_def anonIntrinsics_def t_def)

lemma leaves_table:
  "leaves dataPropertiesToRepair =
    [([''namedIntrinsics'', ''Object'', ''prototype''], JStr ''*''),
     ([''namedIntrinsics'', ''Array'', ''prototype''], JStr ''*''),
     ([''namedIntrinsics'', ''Function'', ''prototype'', ''constructor''], JBool True),
     ([''namedIntrinsics'', ''Function'', ''prototype'', ''bind''], JBool True),
     ([''namedIntrinsics'', ''Function'', ''prototype'', ''name''], JBool True),
     ([''namedIntrinsics'', ''Function'', ''prototype'', ''toString''], JBool True),
     ([''namedIntrinsics'', ''Error'', ''prototype'', ''constructor''], JBool True),
     ([''namedIntrinsics'', ''Error'', ''prototype'', ''message''], JBool True),
     ([''namedIntrinsics'', ''Error'', ''prototype'', ''name''], JBool True),
     ([''namedIntrinsics'', ''Error'', ''prototype'', ''toString''], JBool True),
     ([''namedIntrinsics'', ''TypeError'', ''prototype'', ''constructor''], JBool True),
     ([''namedIntrinsics'', ''TypeError'', ''prototype'', ''name''], JBool True),
     ([''namedIntrinsics'', ''Promise'', ''prototype'', ''constructor''], JBool True),
     ([''anonIntrinsics'', ''TypedArray'', ''prototype''], JStr ''*''),
     ([''anonIntrinsics'', ''GeneratorFunction'', ''prototype'', ''constructor''],
      JBool True),
     ([''anonIntrinsics'', ''GeneratorFunction'', ''prototype'', ''name''], JBool True),
     ([''anonIntrinsics'', ''GeneratorFunction'', ''prototype'', ''toString''], JBool True),
     ([''anonIntrinsics'', ''AsyncFunction'', ''prototype'', ''constructor''], JBool True),
     ([''anonIntrinsics'', ''AsyncFunction'', ''prototype'', ''name''], JBool True),
     ([''anonIntrinsics'', ''AsyncFunction'', ''prototype'', ''toString''], JBool True),
     ([''anonIntrinsics'', ''AsyncGeneratorFunction'', ''prototype'', ''constructor''],
      JBool True),
     ([''anonIntrinsics'', ''AsyncGeneratorFunction'', ''prototype'', ''name''],
      JBool True),
     ([''anonIntrinsics'', ''AsyncGeneratorFunction'', ''prototype'', ''toString''],
      JBool True),
     ([''anonIntrinsics'', ''IteratorPrototype''], JStr ''*'')]"
  unfolding leaves_def nodes_table
  by (simp add: dataPropertiesToRepair_def namedIntrinsics_def anonIntrinsics_def t_def)

lemma keys_namedIntrinsics:
  "keys namedIntrinsics =
    [''Object'', ''Array'', ''Function'', ''Error'', ''TypeError'', ''Promise'']"
  by (simp add: namedIntrinsics_def dataPropertiesToRepair_def)

lemma keys_anonIntrinsics:
  "keys anonIntrinsics =
    [''TypedArray'', ''GeneratorFunction'', ''AsyncFunction'', ''AsyncGeneratorFunction'',
     ''IteratorPrototype'']"
  by (simp add: anonIntrinsics_def dataPropertiesToRepair_def)

lemma table_keys_distinct:
  "list_all (\<lambda>(p, v). distinct (keys v)) (nodes [] dataPropertiesToRepair)"
  unfolding nodes_table
  by (simp add: dataPropertiesToRepair_def namedIntrinsics_def anonIntrinsics_def)

subsection \<open>Shapes of the values\<close>

text \<open>
  C1. Every value reachable in the exported table is a nested record, the boolean
  \<^verbatim>\<open>true\<close>, the string \<^verbatim>\<open>"*"\<close>, or a falsey value: none is a number other than
  zero, another string, or an array.
\<close>

theorem table_shapes:
  "list_all (\<lambda>(p, v). shape_of v \<in> {IsRecord, IsTrue, IsStar, IsFalsey})
     (nodes [] dataPropertiesToRepair)"
  unfolding nodes_table
  by (simp add: dataPropertiesToRepair_def namedIntrinsics_def anonIntrinsics_def)

text \<open>
  C2. The root record has exactly the two keys \<^verbatim>\<open>namedIntrinsics\<close> and
  \<^verbatim>\<open>anonIntrinsics\<close>, in this order and no third one; the value of each is a record, and
  each property of these records is a policy node (a record or a leaf of a documented
  shape).
\<close>

theorem table_top_level:
  "keys dataPropertiesToRepair = [''namedIntrinsics'', ''anonIntrinsics'']
   \<and> length (keys dataPropertiesToRepair) = 2
   \<and> shape_of namedIntrinsics = IsRecord
   \<and> shape_of anonIntrinsics = IsRecord
   \<and> list_all (\<lambda>k. shape_of (get namedIntrinsics k) \<noteq> IsOther) (keys namedIntrinsics)
   \<and> list_all (\<lambda>k. shape_of (get anonIntrinsics k) \<noteq> IsOther) (keys anonIntrinsics)"
  by (simp add: dataPropertiesToRepair_def namedIntrinsics_def anonIntrinsics_def t_def)

subsection \<open>Single entries\<close>


lemma error_prototype_record:
  "get_path dataPropertiesToRepair [''namedIntrinsics'', ''Error'', ''prototype''] =
     JRecord [(''constructor'', JBool True), (''message'', JBool True),
              (''name'', JBool True), (''toString'', JBool True)]"
  by (simp add: dataPropertiesToRepair_def t_def)

subsection \<open>The two categories\<close>

text \<open>
  C5, as stated: the keys of \<^verbatim>\<open>namedIntrinsics\<close> are \<^verbatim>\<open>Object\<close>, \<^verbatim>\<open>Array\<close>,
  \<^verbatim>\<open>Function\<close>, \<^verbatim>\<open>Error\<close>, the error subtypes and \<^verbatim>\<open>Promise\<close>. This fails: of the
  error subtypes the table lists \<^verbatim>\<open>TypeError\<close> alone; \<^verbatim>\<open>RangeError\<close>, for one, is a
  subtype of \<^verbatim>\<open>Error\<close> and no key of the category.
\<close>

theorem named_keys_not_all_error_subtypes:
  "\<not> (set (keys namedIntrinsics) =
        set ([''Object'', ''Array'', ''Function'', ''Error''] @ native_error_names
             @ [''Promise'']))
   \<and> ''RangeError'' \<in> set native_error_names
   \<and> ''RangeError'' \<notin> set (keys namedIntrinsics)"
proof -
  have absent: "''RangeError'' \<notin> set (keys namedIntrinsics)"
    by (simp add: keys_namedIntrinsics)
  have listed: "''RangeError'' \<in> set native_error_names"
    by (simp add: native_error_names_def)
  have differ:
    "\<not> (set (keys namedIntrinsics) =
          set ([''Object'', ''Array'', ''Function'', ''Error''] @ native_error_names
               @ [''Promise'']))"
  proof
    assume same:
      "set (keys namedIntrinsics) =
         set ([''Object'', ''Array'', ''Function'', ''Error''] @ native_error_names
              @ [''Promise''])"
    from listed
    have "''RangeError'' \<in> set ([''Object'', ''Array'', ''Function'', ''Error'']
            @ native_error_names @ [''Promise''])"
      unfolding set_append by (rule UnI2 [OF UnI1])
    with same have "''RangeError'' \<in> set (keys namedIntrinsics)"
      by (rule ssubst [where P = "\<lambda>X. ''RangeError'' \<in> X"])
    with absent show False ..
  qed
  from differ listed absent show ?thesis
    by (intro conjI)
qed

text \<open>
  C5, amended. The keys of \<^verbatim>\<open>namedIntrinsics\<close> are exactly \<^verbatim>\<open>Object\<close>, \<^verbatim>\<open>Array\<close>,
  \<^verbatim>\<open>Function\<close>, \<^verbatim>\<open>Error\<close>, \<^verbatim>\<open>TypeError\<close> and \<^verbatim>\<open>Promise\<close>; \<^verbatim>\<open>TypeError\<close> is the only
  error subtype among them. Every key is the name of a constructor bound on the global
  object, and none is a key of \<^verbatim>\<open>anonIntrinsics\<close>.
\<close>

theorem named_keys:
  "keys namedIntrinsics =
     [''Object'', ''Array'', ''Function'', ''Error'', ''TypeError'', ''Promise'']
   \<and> filter (\<lambda>k. k \<in> set native_error_names) (keys namedIntrinsics) = [''TypeError'']
   \<and> list_all (\<lambda>k. k \<in> set global_constructor_names) (keys namedIntrinsics)
   \<and> list_all (\<lambda>k. k \<notin> set (keys anonIntrinsics)) (keys namedIntrinsics)"
  unfolding keys_namedIntrinsics keys_anonIntrinsics
  by (simp add: native_error_names_def global_constructor_names_def)

text \<open>
  C6. The keys of \<^verbatim>\<open>anonIntrinsics\<close> are exactly \<^verbatim>\<open>TypedArray\<close>,
  \<^verbatim>\<open>GeneratorFunction\<close>, \<^verbatim>\<open>AsyncFunction\<close>, \<^verbatim>\<open>AsyncGeneratorFunction\<close> and
  \<^verbatim>\<open>IteratorPrototype\<close>; none of them is bound by name on the global object, and none is
  a key of \<^verbatim>\<open>namedIntrinsics\<close>.
\<close>

theorem anon_keys:
  "keys anonIntrinsics =
     [''TypedArray'', ''GeneratorFunction'', ''AsyncFunction'', ''AsyncGeneratorFunction'',
      ''IteratorPrototype'']
   \<and> list_all (\<lambda>k. k \<notin> set global_constructor_names) (keys anonIntrinsics)
   \<and> list_all (\<lambda>k. k \<notin> set (keys namedIntrinsics)) (keys anonIntrinsics)"
  unfolding keys_namedIntrinsics keys_anonIntrinsics
  by (simp add: global_constructor_names_def)

subsection \<open>Leaves\<close>

text \<open>
  C8. The wildcard \<^verbatim>\<open>"*"\<close> stands at exactly four places: the prototypes of \<^verbatim>\<open>Object\<close>
  and \<^verbatim>\<open>Array\<close> (named), the prototype of \<^verbatim>\<open>TypedArray\<close> and \<^verbatim>\<open>IteratorPrototype\<close>
  (anonymous). Every other leaf is \<^verbatim>\<open>true\<close>.
\<close>

theorem wildcard_positions:
  "map fst (filter (\<lambda>(p, v). v = JStr ''*'') (leaves dataPropertiesToRepair)) =
     [[''namedIntrinsics'', ''Object'', ''prototype''],
      [''namedIntrinsics'', ''Array'', ''prototype''],
      [''anonIntrinsics'', ''TypedArray'', ''prototype''],
      [''anonIntrinsics'', ''IteratorPrototype'']]
   \<and> list_all (\<lambda>(p, v). v = JBool True)
        (filter (\<lambda>(p, v). v \<noteq> JStr ''*'') (leaves dataPropertiesToRepair))"
  unfolding leaves_table by simp

text \<open>
  C9. Every \<^verbatim>\<open>true\<close> leaf is a property of a record that is itself the value of a key
  \<^verbatim>\<open>prototype\<close>: its path has four names, the third of which is \<^verbatim>\<open>prototype\<close>. So no
  \<^verbatim>\<open>true\<close> leaf sits directly in the record of an intrinsic (three names) or of a category
  (two names). There are 20 such leaves.
\<close>

theorem repair_leaves_under_prototype:
  "list_all (\<lambda>(p, v). butlast p \<noteq> [] \<and> last (butlast p) = ''prototype''
       \<and> length p = 4 \<and> p ! 2 = ''prototype'')
     (filter (\<lambda>(p, v). v = JBool True) (leaves dataPropertiesToRepair))
   \<and> length (filter (\<lambda>(p, v). v = JBool True) (leaves dataPropertiesToRepair)) = 20"
  unfolding leaves_table by simp

text \<open>
  C10. Every path from the root to a leaf has at least 2 and at most 4 names; both bounds
  are met (\<^verbatim>\<open>anonIntrinsics.IteratorPrototype\<close> and
  \<^verbatim>\<open>namedIntrinsics.Function.prototype.constructor\<close>), and the nesting depth of the table
  is 4.
\<close>

theorem leaf_path_lengths:
  "list_all (\<lambda>(p, v). 2 \<le> length p \<and> length p \<le> 4) (leaves dataPropertiesToRepair)
   \<and> ([''anonIntrinsics'', ''IteratorPrototype''], JStr ''*'')
       \<in> set (leaves dataPropertiesToRepair)
   \<and> ([''namedIntrinsics'', ''Function'', ''prototype'', ''constructor''], JBool True)
       \<in> set (leaves dataPropertiesToRepair)
   \<and> depth dataPropertiesToRepair = 4"
proof -
  have "depth dataPropertiesToRepair = 4"
    by (simp add: dataPropertiesToRepair_def t_def)
  then show ?thesis
    unfolding leaves_table by simp
qed

section \<open>Properties of the exported objects\<close>

lemma acyclic_increasing:
  fixes es :: "(nat \<times> nat) list"
  assumes inc: "list_all (\<lambda>(a, b). a < b) es"
  shows "acyclic (set es)"
proof -
  have step: "a < b" if "(a, b) \<in> set es" for a b
    using inc that by (auto simp: list_all_iff)
  have "a < b" if "(a, b) \<in> (set es)\<^sup>+" for a b
    using that
  proof (induction rule: trancl_induct)
    case (base y)
    then show ?case by (rule step)
  next
    case (step y z)
    from step.hyps(2) have "y < z" by (rule \<open>\<And>a b. (a, b) \<in> set es \<Longrightarrow> a < b\<close>)
    with step.IH show ?case by simp
  qed
  then have "(x, x) \<notin> (set es)\<^sup>+" for x
    by (meson less_irrefl)
  then show ?thesis
    by (simp add: acyclic_def)
qed

text \<open>The store after the evaluation of the literal: 20 objects, the root at address 0.\<close>

lemma exported_store:
  "exported =
    (VRef 0,
     [[(StrKey ''namedIntrinsics'', VRef 1), (StrKey ''anonIntrinsics'', VRef 12)],
      [(StrKey ''Object'', VRef 2), (StrKey ''Array'', VRef 3), (StrKey ''Function'', VRef 4),
       (StrKey ''Error'', VRef 6), (StrKey ''TypeError'', VRef 8), (StrKey ''Promise'', VRef 10)],
      [(StrKey ''prototype'', VStr ''*'')],
      [(StrKey ''prototype'', VStr ''*'')],
      [(StrKey ''prototype'', VRef 5)],
      [(StrKey ''constructor'', VBool True), (StrKey ''bind'', VBool True),
       (StrKey ''name'', VBool True), (StrKey ''toString'', VBool True)],
      [(StrKey ''prototype'', VRef 7)],
      [(StrKey ''constructor'', VBool True), (StrKey ''message'', VBool True),
       (StrKey ''name'', VBool True), (StrKey ''toString'', VBool True)],
      [(StrKey ''prototype'', VRef 9)],
      [(StrKey ''constructor'', VBool True), (StrKey ''name'', VBool True)],
      [(StrKey ''prototype'', VRef 11)],
      [(StrKey ''constructor'', VBool True)],
      [(StrKey ''TypedArray'', VRef 13), (StrKey ''GeneratorFunction'', VRef 14),
       (StrKey ''AsyncFunction'', VRef 16), (StrKey ''AsyncGeneratorFunction'', VRef 18),
       (StrKey ''IteratorPrototype'', VStr ''*'')],
      [(StrKey ''prototype'', VStr ''*'')],
      [(StrKey ''prototype'', VRef 15)],
      [(StrKey ''constructor'', VBool True), (StrKey ''name'', VBool True),
       (StrKey ''toString'', VBool True)],
      [(StrKey ''prototype'', VRef 17)],
      [(StrKey ''constructor'', VBool True), (StrKey ''name'', VBool True),
       (StrKey ''toString'', VBool True)],
      [(StrKey ''prototype'', VRef 19)],
      [(StrKey ''constructor'', VBool True), (StrKey ''name'', VBool True),
       (StrKey ''toString'', VBool True)]])"
  by (simp add: exported_def dataPropertiesToRepair_def t_def)

lemma edges_exported:
  "edges (snd exported) =
    [(0, 1), (0, 12), (1, 2), (1, 3), (1, 4), (1, 6), (1, 8), (1, 10), (4, 5), (6, 7),
     (8, 9), (10, 11), (12, 13), (12, 14), (12, 16), (12, 18), (14, 15), (16, 17),
     (18, 19)]"
  unfolding exported_store by (simp add: edges_def)

lemma leafward_exported: "leafward 4 (snd exported) (fst exported)"
  unfolding exported_store by (simp add: numeral_nat)

text \<open>
  C3. The exported table is a finite tree of objects. No object refers, directly or
  through other objects, back to itself (so to none of its ancestors); no object is
  referred to twice; and every chain of properties from the root ends in a leaf
  \<^verbatim>\<open>true\<close> or \<^verbatim>\<open>"*"\<close> after at most four steps.
\<close>

theorem table_is_finite_tree:
  "fst exported = VRef 0
   \<and> acyclic (set (edges (snd exported)))
   \<and> distinct (map snd (edges (snd exported)))
   \<and> leafward 4 (snd exported) (fst exported)"
proof (intro conjI)
  show "fst exported = VRef 0"
    by (simp add: exported_store)
  show "acyclic (set (edges (snd exported)))"
    by (rule acyclic_increasing) (simp add: edges_exported)
  show "distinct (map snd (edges (snd exported)))"
    by (simp add: edges_exported)
  show "leafward 4 (snd exported) (fst exported)"
    by (rule leafward_exported)
qed

section \<open>Properties of the repair engine\<close>

subsection \<open>Repairs only add accessors\<close>

lemma desc_le_refl: "desc_le d d"
  by (simp add: desc_le_def)

lemma desc_le_trans: "desc_le d d' \<Longrightarrow> desc_le d' d'' \<Longrightarrow> desc_le d d''"
  by (auto simp: desc_le_def)

lemma own_le_refl: "own_le ps ps"
  by (simp add: own_le_def list_all2_refl desc_le_refl)

lemma own_le_trans:
  assumes "own_le ps ps'" and "own_le ps' ps''"
  shows "own_le ps ps''"
  using assms unfolding own_le_def
  by (rule list_all2_trans [rotated]) (auto intro: desc_le_trans)

lemma obj_le_refl: "obj_le ob ob"
  by (simp add: obj_le_def own_le_refl)

lemma obj_le_trans: "obj_le ob ob' \<Longrightarrow> obj_le ob' ob'' \<Longrightarrow> obj_le ob ob''"
  by (auto simp: obj_le_def intro: own_le_trans)

lemma heap_le_refl: "heap_le h h"
  by (simp add: heap_le_def list_all2_refl obj_le_refl)

lemma heap_le_trans:
  assumes "heap_le h h'" and "heap_le h' h''"
  shows "heap_le h h''"
  using assms unfolding heap_le_def
  by (rule list_all2_trans [rotated]) (auto intro: obj_le_trans)

lemma heap_le_length: "heap_le h h' \<Longrightarrow> length h' = length h"
  by (simp add: heap_le_def list_all2_lengthD)

lemma heap_le_nth: "heap_le h h' \<Longrightarrow> a < length h \<Longrightarrow> obj_le (h ! a) (h' ! a)"
  by (simp add: heap_le_def list_all2_nthD)

lemma own_le_keys: "own_le ps ps' \<Longrightarrow> map fst ps' = map fst ps"
  unfolding own_le_def by (induction rule: list_all2_induct) auto

lemma own_le_map_of_None: "own_le ps ps' \<Longrightarrow> map_of ps k = None \<Longrightarrow> map_of ps' k = None"
  unfolding own_le_def
  by (induction rule: list_all2_induct) (auto split: if_splits)

lemma own_le_map_of_Some:
  "own_le ps ps' \<Longrightarrow> map_of ps k = Some d \<Longrightarrow> \<exists>d'. map_of ps' k = Some d' \<and> desc_le d d'"
  unfolding own_le_def
  by (induction rule: list_all2_induct) (auto split: if_splits)

lemma read_desc_le: "desc_le d d' \<Longrightarrow> read_desc d' = read_desc d"
  by (auto simp: desc_le_def)

lemma get_from_le: "heap_le h h' \<Longrightarrow> get_from n h' a k = get_from n h a k"
proof (induction n arbitrary: a)
  case 0
  show ?case by simp
next
  case (Suc n)
  show ?case
  proof (cases "a < length h")
    case False
    with Suc.prems show ?thesis
      by (simp add: heap_le_length)
  next
    case True
    with Suc.prems have ob: "obj_le (h ! a) (h' ! a)"
      by (rule heap_le_nth)
    show ?thesis
    proof (cases "map_of (own (h ! a)) k")
      case None
      with ob have "map_of (own (h' ! a)) k = None"
        by (auto simp: obj_le_def dest: own_le_map_of_None)
      with None ob True Suc.prems Suc.IH show ?thesis
        by (simp add: heap_le_length obj_le_def split: option.splits)
    next
      case (Some d)
      with ob obtain d' where "map_of (own (h' ! a)) k = Some d'" "desc_le d d'"
        by (auto simp: obj_le_def dest: own_le_map_of_Some)
      with Some True Suc.prems show ?thesis
        by (simp add: heap_le_length read_desc_le)
    qed
  qed
qed

lemma get_prop_le: "heap_le h h' \<Longrightarrow> get_prop h' a k = get_prop h a k"
  by (simp add: get_prop_def heap_le_length get_from_le)

lemma as_object_le: "heap_le h h' \<Longrightarrow> as_object h' v = as_object h v"
  by (cases v) (simp_all add: heap_le_length)

lemma map_of_replace_desc:
  "map_of ps k = Some d0 \<Longrightarrow> map_of (replace_desc k d ps) k = Some d"
  by (induction ps) (auto split: if_splits)

lemma replace_desc_le:
  "map_of ps k = Some (DataDesc v w e True)
   \<Longrightarrow> own_le ps (replace_desc k (AccessorDesc v e True) ps)"
proof (induction ps)
  case Nil
  then show ?case by simp
next
  case (Cons x ps)
  show ?case
  proof (cases "fst x = k")
    case True
    with Cons.prems have "snd x = DataDesc v w e True"
      by (cases x) simp
    with True show ?thesis
      using own_le_refl [of ps]
      by (cases x) (simp add: own_le_def desc_le_def)
  next
    case False
    with Cons.prems have "map_of ps k = Some (DataDesc v w e True)"
      by (cases x) (simp split: if_splits)
    then have "own_le ps (replace_desc k (AccessorDesc v e True) ps)"
      by (rule Cons.IH)
    with False show ?thesis
      by (cases x) (simp add: own_le_def desc_le_refl)
  qed
qed

lemma heap_le_update:
  assumes "a < length h" and "obj_le (h ! a) ob"
  shows "heap_le h (h[a := ob])"
proof -
  have "list_all2 obj_le (h[a := h ! a]) (h[a := ob])"
    using assms(2) heap_le_refl [of h]
    unfolding heap_le_def by (rule list_all2_update_cong [rotated])
  then show ?thesis
    by (simp add: heap_le_def)
qed

subsection \<open>One repair, and the loop of the wildcard\<close>

lemma repair_le: "repair h a k = (r, h') \<Longrightarrow> heap_le h h'"
  unfolding repair_def
  by (auto simp: heap_le_refl obj_le_def intro!: heap_le_update replace_desc_le
      split: if_splits option.splits descriptor.splits)

lemma repair_again:
  assumes run: "repair h a k = (r, h1)" and le: "heap_le h1 hf"
  shows "repair hf a k = (if r = Repaired then AlreadyAccessor else r, hf)"
proof (cases "a < length h")
  case False
  with run have "h1 = h" "r = PropertyAbsent"
    by (simp_all add: repair_def)
  with False le show ?thesis
    by (simp add: repair_def heap_le_length)
next
  case valid: True
  from run have "heap_le h h1" by (rule repair_le)
  then have len1: "length h1 = length h" by (rule heap_le_length)
  from le have lenf: "length hf = length h1" by (rule heap_le_length)
  from le valid len1 have ob: "own_le (own (h1 ! a)) (own (hf ! a))"
    using heap_le_nth [of h1 hf a] by (simp add: obj_le_def)
  show ?thesis
  proof (cases "map_of (own (h ! a)) k")
    case None
    with run valid have eq: "h1 = h" "r = PropertyAbsent"
      by (simp_all add: repair_def)
    with ob None have "map_of (own (hf ! a)) k = None"
      by (auto dest: own_le_map_of_None)
    with eq valid lenf show ?thesis
      by (simp add: repair_def)
  next
    case (Some d)
    show ?thesis
    proof (cases d)
      case (AccessorDesc g e c)
      with run valid Some have eq: "h1 = h" "r = AlreadyAccessor"
        by (simp_all add: repair_def)
      with ob Some AccessorDesc have "map_of (own (hf ! a)) k = Some (AccessorDesc g e c)"
        by (auto dest!: own_le_map_of_Some simp: desc_le_def)
      with eq valid lenf show ?thesis
        by (simp add: repair_def)
    next
      case (DataDesc v w e c)
      show ?thesis
      proof (cases c)
        case False
        with run valid Some DataDesc have eq: "h1 = h" "r = NonConfigurable"
          by (simp_all add: repair_def)
        with ob Some DataDesc False
        have "map_of (own (hf ! a)) k = Some (DataDesc v w e False)"
          by (auto dest!: own_le_map_of_Some simp: desc_le_def)
        with eq valid lenf show ?thesis
          by (simp add: repair_def)
      next
        case True
        with run valid Some DataDesc
        have eq: "r = Repaired"
          "h1 = h[a := (h ! a)\<lparr>own := replace_desc k (AccessorDesc v e True) (own (h ! a))\<rparr>]"
          by (simp_all add: repair_def)
        with valid Some have "map_of (own (h1 ! a)) k = Some (AccessorDesc v e True)"
          by (simp add: map_of_replace_desc)
        with ob have "map_of (own (hf ! a)) k = Some (AccessorDesc v e True)"
          by (auto dest!: own_le_map_of_Some simp: desc_le_def)
        with eq(1) valid len1 lenf show ?thesis
          by (simp add: repair_def)
      qed
    qed
  qed
qed

lemma repair_keys_le: "repair_keys a p ks h = (outs, h') \<Longrightarrow> heap_le h h'"
proof (induction ks arbitrary: h outs h')
  case Nil
  then show ?case by (simp add: heap_le_refl)
next
  case (Cons k ks)
  obtain r h1 where first: "repair h a k = (r, h1)"
    by (cases "repair h a k")
  obtain outs' h2 where rest: "repair_keys a p ks h1 = (outs', h2)"
    by (cases "repair_keys a p ks h1")
  from Cons.prems first rest have "h' = h2" by simp
  moreover from first have "heap_le h h1" by (rule repair_le)
  moreover from rest have "heap_le h1 h2" by (rule Cons.IH)
  ultimately show ?case by (auto intro: heap_le_trans)
qed

lemma repair_keys_again:
  "repair_keys a p ks h = (outs, h1) \<Longrightarrow> heap_le h1 hf
   \<Longrightarrow> repair_keys a p ks hf = (map again outs, hf)"
proof (induction ks arbitrary: h outs)
  case Nil
  then show ?case by simp
next
  case (Cons k ks)
  obtain r ha where first: "repair h a k = (r, ha)"
    by (cases "repair h a k")
  obtain outs' h2 where rest: "repair_keys a p ks ha = (outs', h2)"
    by (cases "repair_keys a p ks ha")
  from Cons.prems(1) first rest have eq: "h1 = h2" "outs = (p @ [k], r) # outs'"
    by simp_all
  from rest have "heap_le ha h2" by (rule repair_keys_le)
  with eq Cons.prems(2) have "heap_le ha hf" by (auto intro: heap_le_trans)
  with first have one: "repair hf a k = (if r = Repaired then AlreadyAccessor else r, hf)"
    by (rule repair_again)
  from rest eq Cons.prems(2) have "repair_keys a p ks hf = (map again outs', hf)"
    by (auto intro: Cons.IH)
  with one eq show ?case by simp
qed


subsection \<open>Steps of a walk\<close>

lemma settlesI:
  assumes "f w = (outs, w1)"
    and "heap_le (heap w) (heap w1)"
    and "\<And>hf. heap_le (heap w1) hf \<Longrightarrow> f (w\<lparr>heap := hf\<rparr>) = (map again outs, w1\<lparr>heap := hf\<rparr>)"
  shows "settles f w"
  using assms by (simp add: settles_def)

lemma settles_le: "settles f w \<Longrightarrow> f w = (outs, w1) \<Longrightarrow> heap_le (heap w) (heap w1)"
  by (simp add: settles_def)

lemma settles_again:
  "settles f w \<Longrightarrow> f w = (outs, w1) \<Longrightarrow> heap_le (heap w1) hf
   \<Longrightarrow> f (w\<lparr>heap := hf\<rparr>) = (map again outs, w1\<lparr>heap := hf\<rparr>)"
  by (simp add: settles_def)

lemma settles_skip: "settles (\<lambda>w. ([], w)) w"
  by (rule settlesI [where outs = "[]" and ?w1.0 = w]) (simp_all add: heap_le_refl)

lemma settles_absent: "settles (\<lambda>w. ([(p, RootAbsent)], w)) w"
  by (rule settlesI [where outs = "[(p, RootAbsent)]" and ?w1.0 = w])
    (simp_all add: heap_le_refl)

lemma settles_seq:
  assumes f: "settles f w"
    and g: "settles g (snd (f w))"
  shows "settles (\<lambda>w. case f w of (outs1, w1) \<Rightarrow>
            (case g w1 of (outs2, w2) \<Rightarrow> (outs1 @ outs2, w2))) w"
proof -
  obtain outs1 w1 where fw: "f w = (outs1, w1)" by (cases "f w")
  obtain outs2 w2 where gw: "g w1 = (outs2, w2)" by (cases "g w1")
  from f fw have le1: "heap_le (heap w) (heap w1)" by (rule settles_le)
  from g fw gw have le2: "heap_le (heap w1) (heap w2)" by (auto dest: settles_le)
  show ?thesis
  proof (rule settlesI [where outs = "outs1 @ outs2" and ?w1.0 = w2])
    show "(case f w of (outs1, w1) \<Rightarrow>
            (case g w1 of (outs2, w2) \<Rightarrow> (outs1 @ outs2, w2))) = (outs1 @ outs2, w2)"
      by (simp add: fw gw)
    show "heap_le (heap w) (heap w2)"
      using le1 le2 by (rule heap_le_trans)
  next
    fix hf
    assume le: "heap_le (heap w2) hf"
    with le2 have "heap_le (heap w1) hf" by (rule heap_le_trans)
    with f fw have one: "f (w\<lparr>heap := hf\<rparr>) = (map again outs1, w1\<lparr>heap := hf\<rparr>)"
      by (rule settles_again)
    from g fw gw le have two: "g (w1\<lparr>heap := hf\<rparr>) = (map again outs2, w2\<lparr>heap := hf\<rparr>)"
      by (auto dest: settles_again)
    show "(case f (w\<lparr>heap := hf\<rparr>) of (outs1, w1) \<Rightarrow>
             (case g w1 of (outs2, w2) \<Rightarrow> (outs1 @ outs2, w2)))
          = (map again (outs1 @ outs2), w2\<lparr>heap := hf\<rparr>)"
      by (simp add: one two)
  qed
qed

lemma settles_repair:
  "settles (\<lambda>w. case repair (heap w) a k of (r, h') \<Rightarrow> ([(p, r)], w\<lparr>heap := h'\<rparr>)) w"
proof -
  obtain r h1 where run: "repair (heap w) a k = (r, h1)" by (cases "repair (heap w) a k")
  show ?thesis
  proof (rule settlesI [where outs = "[(p, r)]" and ?w1.0 = "w\<lparr>heap := h1\<rparr>"])
    show "(case repair (heap w) a k of (r, h') \<Rightarrow> ([(p, r)], w\<lparr>heap := h'\<rparr>))
          = ([(p, r)], w\<lparr>heap := h1\<rparr>)"
      by (simp add: run)
    from run show "heap_le (heap w) (heap (w\<lparr>heap := h1\<rparr>))"
      by (simp add: repair_le)
  next
    fix hf
    assume "heap_le (heap (w\<lparr>heap := h1\<rparr>)) hf"
    then have "heap_le h1 hf" by simp
    with run have "repair hf a k = (if r = Repaired then AlreadyAccessor else r, hf)"
      by (rule repair_again)
    then show "(case repair (heap (w\<lparr>heap := hf\<rparr>)) a k of
                 (r, h') \<Rightarrow> ([(p, r)], w\<lparr>heap := hf, heap := h'\<rparr>))
               = (map again [(p, r)], w\<lparr>heap := h1, heap := hf\<rparr>)"
      by simp
  qed
qed

lemma settles_expandWildcard:
  assumes valid: "a < length (heap w)"
  shows "settles (expandWildcard a p) w"
proof (cases "a \<in> wildcard_visited w")
  case True
  show ?thesis
    by (rule settlesI [where outs = "[]" and ?w1.0 = w])
      (simp_all add: expandWildcard_def True heap_le_refl)
next
  case False
  obtain outs h1 where run:
    "repair_keys a p (map fst (own (heap w ! a))) (heap w) = (outs, h1)"
    by (cases "repair_keys a p (map fst (own (heap w ! a))) (heap w)")
  then have le: "heap_le (heap w) h1" by (rule repair_keys_le)
  show ?thesis
  proof (rule settlesI [where outs = outs
        and ?w1.0 = "w\<lparr>heap := h1, wildcard_visited := insert a (wildcard_visited w)\<rparr>"])
    show "expandWildcard a p w
          = (outs, w\<lparr>heap := h1, wildcard_visited := insert a (wildcard_visited w)\<rparr>)"
      by (simp add: expandWildcard_def False run)
    show "heap_le (heap w)
            (heap (w\<lparr>heap := h1, wildcard_visited := insert a (wildcard_visited w)\<rparr>))"
      using le by simp
  next
    fix hf
    assume "heap_le
      (heap (w\<lparr>heap := h1, wildcard_visited := insert a (wildcard_visited w)\<rparr>)) hf"
    then have lef: "heap_le h1 hf" by simp
    with le have "heap_le (heap w) hf" by (rule heap_le_trans)
    with valid have "own_le (own (heap w ! a)) (own (hf ! a))"
      using heap_le_nth [of "heap w" hf a] by (simp add: obj_le_def)
    then have keys: "map fst (own (hf ! a)) = map fst (own (heap w ! a))"
      by (rule own_le_keys)
    from run lef
    have "repair_keys a p (map fst (own (heap w ! a))) hf = (map again outs, hf)"
      by (rule repair_keys_again)
    with keys False
    show "expandWildcard a p (w\<lparr>heap := hf\<rparr>)
          = (map again outs,
             w\<lparr>heap := h1, wildcard_visited := insert a (wildcard_visited w), heap := hf\<rparr>)"
      by (simp add: expandWildcard_def)
  qed
qed


lemma settles_expand_value:
  assumes same: "\<And>hf. heap_le (heap w) hf \<Longrightarrow> v hf = v (heap w)"
  shows "settles (\<lambda>w. expand_value (v (heap w)) p w) w"
proof (cases "as_object (heap w) (v (heap w))")
  case None
  show ?thesis
  proof (rule settlesI [where outs = "[(p, RootAbsent)]" and ?w1.0 = w])
    show "expand_value (v (heap w)) p w = ([(p, RootAbsent)], w)"
      by (simp add: expand_value_def None)
    show "heap_le (heap w) (heap w)"
      by (rule heap_le_refl)
  next
    fix hf
    assume le: "heap_le (heap w) hf"
    with None have "as_object hf (v hf) = None"
      by (simp add: same as_object_le)
    then show "expand_value (v (heap (w\<lparr>heap := hf\<rparr>))) p (w\<lparr>heap := hf\<rparr>)
               = (map again [(p, RootAbsent)], w\<lparr>heap := hf\<rparr>)"
      by (simp add: expand_value_def)
  qed
next
  case (Some b)
  then have valid: "b < length (heap w)"
    by (cases "v (heap w)") (simp_all split: if_splits)
  then have st: "settles (expandWildcard b p) w"
    by (rule settles_expandWildcard)
  obtain outs w1 where run: "expandWildcard b p w = (outs, w1)"
    by (cases "expandWildcard b p w")
  from st run have le1: "heap_le (heap w) (heap w1)"
    by (rule settles_le)
  show ?thesis
  proof (rule settlesI [where outs = outs and ?w1.0 = w1])
    show "expand_value (v (heap w)) p w = (outs, w1)"
      by (simp add: expand_value_def Some run)
    show "heap_le (heap w) (heap w1)"
      by (rule le1)
  next
    fix hf
    assume le: "heap_le (heap w1) hf"
    with le1 have lew: "heap_le (heap w) hf" by (rule heap_le_trans)
    with Some have "as_object hf (v hf) = Some b"
      by (simp add: same as_object_le)
    moreover from st run le
    have "expandWildcard b p (w\<lparr>heap := hf\<rparr>) = (map again outs, w1\<lparr>heap := hf\<rparr>)"
      by (rule settles_again)
    ultimately
    show "expand_value (v (heap (w\<lparr>heap := hf\<rparr>))) p (w\<lparr>heap := hf\<rparr>)
          = (map again outs, w1\<lparr>heap := hf\<rparr>)"
      by (simp add: expand_value_def)
  qed
qed

subsection \<open>The planner\<close>

lemma settles_plan_subtree_entry:
  "settles (plan_subtree m a p) w"
  "settles (plan_entry entry a p) w"
proof (induction m a p w and entry a p w rule: plan_subtree_plan_entry.induct)
  case (1 a p w)
  have "plan_subtree [] a p = (\<lambda>w. ([], w))"
    by (rule ext) simp
  then show ?case
    by (simp add: settles_skip)
next
  case (2 entry rest a p w)
  have unfold: "plan_subtree (entry # rest) a p =
      (\<lambda>w. case plan_entry entry a p w of (outs1, w1) \<Rightarrow>
         (case plan_subtree rest a p w1 of (outs2, w2) \<Rightarrow> (outs1 @ outs2, w2)))"
    by (rule ext) simp
  have "settles (plan_subtree rest a p) (snd (plan_entry entry a p w))"
    by (rule "2.IH"(2) [of "fst (plan_entry entry a p w)"]) simp
  with "2.IH"(1) show ?case
    unfolding unfold by (rule settles_seq)
next
  case (3 k a p w)
  have "plan_entry (k, RepairLeaf) a p =
      (\<lambda>w. case repair (heap w) a (StrKey k) of
         (r, h') \<Rightarrow> ([(p @ [StrKey k], r)], w\<lparr>heap := h'\<rparr>))"
    by (rule ext) simp
  then show ?case
    by (simp add: settles_repair)
next
  case (4 k a p w)
  have "plan_entry (k, WildcardLeaf) a p =
      (\<lambda>w. expand_value (get_prop (heap w) a (StrKey k)) (p @ [StrKey k]) w)"
    by (rule ext) simp
  moreover
  have "settles (\<lambda>w. expand_value (get_prop (heap w) a (StrKey k)) (p @ [StrKey k]) w) w"
    by (rule settles_expand_value) (rule get_prop_le)
  ultimately show ?case
    by simp
next
  case (5 k m a p w)
  let ?v = "get_prop (heap w) a (StrKey k)"
  let ?p = "p @ [StrKey k]"
  have same: "as_object hf (get_prop hf a (StrKey k)) = as_object (heap w) ?v"
    if "heap_le (heap w) hf" for hf
    using that by (simp add: get_prop_le as_object_le)
  show ?case
  proof (cases "as_object (heap w) ?v")
    case None
    show ?thesis
    proof (rule settlesI [where outs = "[(?p, RootAbsent)]" and ?w1.0 = w])
      show "plan_entry (k, Subtree m) a p w = ([(?p, RootAbsent)], w)"
        by (simp add: None)
      show "heap_le (heap w) (heap w)"
        by (rule heap_le_refl)
    next
      fix hf
      assume "heap_le (heap w) hf"
      then have "as_object hf (get_prop hf a (StrKey k)) = None"
        by (simp add: same None)
      then show "plan_entry (k, Subtree m) a p (w\<lparr>heap := hf\<rparr>)
                 = (map again [(?p, RootAbsent)], w\<lparr>heap := hf\<rparr>)"
        by simp
    qed
  next
    case (Some b)
    show ?thesis
    proof (cases "(b, ?p) \<in> recursion_visited w")
      case True
      show ?thesis
      proof (rule settlesI [where outs = "[]" and ?w1.0 = w])
        show "plan_entry (k, Subtree m) a p w = ([], w)"
          by (simp add: Some True)
        show "heap_le (heap w) (heap w)"
          by (rule heap_le_refl)
      next
        fix hf
        assume "heap_le (heap w) hf"
        then have "as_object hf (get_prop hf a (StrKey k)) = Some b"
          by (simp add: same Some)
        with True show "plan_entry (k, Subtree m) a p (w\<lparr>heap := hf\<rparr>)
                        = (map again [], w\<lparr>heap := hf\<rparr>)"
          by simp
      qed
    next
      case False
      let ?w = "w\<lparr>recursion_visited := insert (b, ?p) (recursion_visited w)\<rparr>"
      from Some False have st: "settles (plan_subtree m b ?p) ?w"
        by (rule "5.IH")
      obtain outs w1 where run: "plan_subtree m b ?p ?w = (outs, w1)"
        by (cases "plan_subtree m b ?p ?w")
      from st run have "heap_le (heap ?w) (heap w1)"
        by (rule settles_le)
      then have le1: "heap_le (heap w) (heap w1)"
        by simp
      show ?thesis
      proof (rule settlesI [where outs = outs and ?w1.0 = w1])
        show "plan_entry (k, Subtree m) a p w = (outs, w1)"
          by (simp add: Some False run)
        show "heap_le (heap w) (heap w1)"
          by (rule le1)
      next
        fix hf
        assume le: "heap_le (heap w1) hf"
        with le1 have "heap_le (heap w) hf" by (rule heap_le_trans)
        then have ob: "as_object hf (get_prop hf a (StrKey k)) = Some b"
          by (simp add: same Some)
        from st run le
        have "plan_subtree m b ?p (?w\<lparr>heap := hf\<rparr>) = (map again outs, w1\<lparr>heap := hf\<rparr>)"
          by (rule settles_again)
        moreover have "w\<lparr>heap := hf,
            recursion_visited := insert (b, ?p) (recursion_visited w)\<rparr> = ?w\<lparr>heap := hf\<rparr>"
          by simp
        ultimately have "plan_subtree m b ?p
            (w\<lparr>heap := hf, recursion_visited := insert (b, ?p) (recursion_visited w)\<rparr>)
            = (map again outs, w1\<lparr>heap := hf\<rparr>)"
          by (simp only:)
        with ob False show "plan_entry (k, Subtree m) a p (w\<lparr>heap := hf\<rparr>)
                            = (map again outs, w1\<lparr>heap := hf\<rparr>)"
          by simp
      qed
    qed
  qed
next
  case (6 k a p w)
  have "plan_entry (k, Skip) a p = (\<lambda>w. ([], w))"
    by (rule ext) simp
  then show ?case
    by (simp add: settles_skip)
qed

lemma settles_plan: "settles (plan root node p) w"
proof (cases node)
  case (Subtree m)
  show ?thesis
  proof (cases "as_object (heap w) root")
    case None
    show ?thesis
    proof (rule settlesI [where outs = "[(p, RootAbsent)]" and ?w1.0 = w])
      show "plan root node p w = ([(p, RootAbsent)], w)"
        by (simp add: plan_def Subtree None)
      show "heap_le (heap w) (heap w)"
        by (rule heap_le_refl)
    next
      fix hf
      assume "heap_le (heap w) hf"
      with None have "as_object hf root = None"
        by (simp add: as_object_le)
      then show "plan root node p (w\<lparr>heap := hf\<rparr>)
                 = (map again [(p, RootAbsent)], w\<lparr>heap := hf\<rparr>)"
        by (simp add: plan_def Subtree)
    qed
  next
    case (Some a)
    have st: "settles (plan_subtree m a p) w"
      by (rule settles_plan_subtree_entry)
    obtain outs w1 where run: "plan_subtree m a p w = (outs, w1)"
      by (cases "plan_subtree m a p w")
    from st run have le1: "heap_le (heap w) (heap w1)"
      by (rule settles_le)
    show ?thesis
    proof (rule settlesI [where outs = outs and ?w1.0 = w1])
      show "plan root node p w = (outs, w1)"
        by (simp add: plan_def Subtree Some run)
      show "heap_le (heap w) (heap w1)"
        by (rule le1)
    next
      fix hf
      assume le: "heap_le (heap w1) hf"
      with le1 have "heap_le (heap w) hf" by (rule heap_le_trans)
      with Some have "as_object hf root = Some a"
        by (simp add: as_object_le)
      moreover from st run le
      have "plan_subtree m a p (w\<lparr>heap := hf\<rparr>) = (map again outs, w1\<lparr>heap := hf\<rparr>)"
        by (rule settles_again)
      ultimately show "plan root node p (w\<lparr>heap := hf\<rparr>)
                       = (map again outs, w1\<lparr>heap := hf\<rparr>)"
        by (simp add: plan_def Subtree)
    qed
  qed
next
  case RepairLeaf
  then have "plan root node p = (\<lambda>w. ([], w))"
    by (intro ext) (simp add: plan_def)
  then show ?thesis
    by (simp add: settles_skip)
next
  case WildcardLeaf
  then have "plan root node p = (\<lambda>w. expand_value root p w)"
    by (intro ext) (simp add: plan_def)
  moreover have "settles (\<lambda>w. expand_value ((\<lambda>h. root) (heap w)) p w) w"
    by (rule settles_expand_value) simp
  ultimately show ?thesis
    by simp
next
  case Skip
  then have "plan root node p = (\<lambda>w. ([], w))"
    by (intro ext) (simp add: plan_def)
  then show ?thesis
    by (simp add: settles_skip)
qed

lemma settles_plan_roots: "settles (plan_roots roots cat m) w"
proof (induction m arbitrary: w)
  case Nil
  have "plan_roots roots cat [] = (\<lambda>w. ([], w))"
    by (rule ext) simp
  then show ?case
    by (simp add: settles_skip)
next
  case (Cons entry rest)
  obtain name node where entry: "entry = (name, node)"
    by (cases entry)
  let ?root = "case roots name of None \<Rightarrow> VUndefined | Some a \<Rightarrow> VRef a"
  have unfold: "plan_roots roots cat (entry # rest) =
      (\<lambda>w. case plan ?root node [StrKey cat, StrKey name] w of (outs1, w1) \<Rightarrow>
         (case plan_roots roots cat rest w1 of (outs2, w2) \<Rightarrow> (outs1 @ outs2, w2)))"
    by (rule ext) (simp add: entry)
  show ?case
    unfolding unfold by (rule settles_seq) (rule settles_plan, rule Cons.IH)
qed

lemma repair_pass_again:
  assumes run: "repair_pass policy roots h = (outs, h1)"
  shows "repair_pass policy roots h1 = (map again outs, h1)"
proof -
  let ?f = "plan_roots (roots ''namedIntrinsics'') ''namedIntrinsics''
              (category policy ''namedIntrinsics'')"
  let ?g = "plan_roots (roots ''anonIntrinsics'') ''anonIntrinsics''
              (category policy ''anonIntrinsics'')"
  let ?fg = "\<lambda>w. case ?f w of (outs1, w1) \<Rightarrow>
               (case ?g w1 of (outs2, w2) \<Rightarrow> (outs1 @ outs2, w2))"
  let ?w = "\<lparr>heap = h, wildcard_visited = {}, recursion_visited = {}\<rparr>"
  have pass: "repair_pass policy roots x =
      (case ?fg \<lparr>heap = x, wildcard_visited = {}, recursion_visited = {}\<rparr> of
         (outs, w) \<Rightarrow> (outs, heap w))" for x
    by (simp add: repair_pass_def split: prod.splits)
  have st: "settles ?fg ?w"
    by (rule settles_seq) (rule settles_plan_roots)+
  obtain w2 where fg: "?fg ?w = (outs, w2)" and h1: "h1 = heap w2"
    using run unfolding pass by (cases "?fg ?w") simp
  from st fg have "?fg (?w\<lparr>heap := heap w2\<rparr>) = (map again outs, w2\<lparr>heap := heap w2\<rparr>)"
    by (rule settles_again) (rule heap_le_refl)
  then have "?fg \<lparr>heap = h1, wildcard_visited = {}, recursion_visited = {}\<rparr>
             = (map again outs, w2)"
    by (simp add: h1)
  then show ?thesis
    unfolding pass by (simp add: h1)
qed

lemma again_not_repaired:
  "snd (again out) \<in> {AlreadyAccessor, RootAbsent, PropertyAbsent, NonConfigurable}"
  by (cases out; cases "snd out") auto

subsection \<open>Running the pass twice\<close>

text \<open>
  C7, amended. For every policy tree, root mapping and heap, a second run of the repair
  pass leaves every property descriptor as the first run left it, and reports the
  outcomes of the first run again with Repaired turned into AlreadyAccessor. So every
  outcome of the second run is AlreadyAccessor, RootAbsent, PropertyAbsent or
  NonConfigurable, and no property is Repaired twice.
\<close>

theorem repair_pass_twice:
  "repair_pass policy roots (snd (repair_pass policy roots h)) =
     (map again (fst (repair_pass policy roots h)), snd (repair_pass policy roots h))
   \<and> list_all
        (\<lambda>out. snd out \<in> {AlreadyAccessor, RootAbsent, PropertyAbsent, NonConfigurable})
        (fst (repair_pass policy roots (snd (repair_pass policy roots h))))"
proof -
  have twice: "repair_pass policy roots (snd (repair_pass policy roots h)) =
     (map again (fst (repair_pass policy roots h)), snd (repair_pass policy roots h))"
    by (rule repair_pass_again) simp
  then have "fst (repair_pass policy roots (snd (repair_pass policy roots h)))
             = map again (fst (repair_pass policy roots h))"
    by simp
  moreover have "list_all
        (\<lambda>out. snd out \<in> {AlreadyAccessor, RootAbsent, PropertyAbsent, NonConfigurable})
        (map again outs)" for outs
    by (induction outs) (simp_all only: list.map list.pred_inject again_not_repaired simp_thms)
  ultimately have "list_all
        (\<lambda>out. snd out \<in> {AlreadyAccessor, RootAbsent, PropertyAbsent, NonConfigurable})
        (fst (repair_pass policy roots (snd (repair_pass policy roots h))))"
    by (simp only:)
  with twice show ?thesis
    by (rule conjI)
qed

subsection \<open>The table run on the sample runtime\<close>

lemma policy_table:
  "policy_of dataPropertiesToRepair =
    Subtree [
      (''namedIntrinsics'', Subtree [
         (''Object'', Subtree [(''prototype'', WildcardLeaf)]),
         (''Array'', Subtree [(''prototype'', WildcardLeaf)]),
         (''Function'', Subtree [(''prototype'', Subtree [
            (''constructor'', RepairLeaf), (''bind'', RepairLeaf), (''name'', RepairLeaf),
            (''toString'', RepairLeaf)])]),
         (''Error'', Subtree [(''prototype'', Subtree [
            (''constructor'', RepairLeaf), (''message'', RepairLeaf), (''name'', RepairLeaf),
            (''toString'', RepairLeaf)])]),
         (''TypeError'', Subtree [(''prototype'', Subtree [
            (''constructor'', RepairLeaf), (''name'', RepairLeaf)])]),
         (''Promise'', Subtree [(''prototype'', Subtree [(''constructor'', RepairLeaf)])])]),
      (''anonIntrinsics'', Subtree [
         (''TypedArray'', Subtree [(''prototype'', WildcardLeaf)]),
         (''GeneratorFunction'', Subtree [(''prototype'', Subtree [
            (''constructor'', RepairLeaf), (''name'', RepairLeaf), (''toString'', RepairLeaf)])]),
         (''AsyncFunction'', Subtree [(''prototype'', Subtree [
            (''constructor'', RepairLeaf), (''name'', RepairLeaf), (''toString'', RepairLeaf)])]),
         (''AsyncGeneratorFunction'', Subtree [(''prototype'', Subtree [
            (''constructor'', RepairLeaf), (''name'', RepairLeaf), (''toString'', RepairLeaf)])]),
         (''IteratorPrototype'', WildcardLeaf)])]"
  by (simp add: dataPropertiesToRepair_def t_def)

lemma sample_first_run:
  "repair_pass (policy_of dataPropertiesToRepair) sample_roots sample_heap =
    ([([StrKey ''namedIntrinsics'', StrKey ''Object''], RootAbsent),
      ([StrKey ''namedIntrinsics'', StrKey ''Array''], RootAbsent),
      ([StrKey ''namedIntrinsics'', StrKey ''Function''], RootAbsent),
      ([StrKey ''namedIntrinsics'', StrKey ''Error'', StrKey ''prototype'',
        StrKey ''constructor''], Repaired),
      ([StrKey ''namedIntrinsics'', StrKey ''Error'', StrKey ''prototype'',
        StrKey ''message''], NonConfigurable),
      ([StrKey ''namedIntrinsics'', StrKey ''Error'', StrKey ''prototype'',
        StrKey ''name''], Repaired),
      ([StrKey ''namedIntrinsics'', StrKey ''Error'', StrKey ''prototype'',
        StrKey ''toString''], PropertyAbsent),
      ([StrKey ''namedIntrinsics'', StrKey ''TypeError''], RootAbsent),
      ([StrKey ''namedIntrinsics'', StrKey ''Promise''], RootAbsent),
      ([StrKey ''anonIntrinsics'', StrKey ''TypedArray''], RootAbsent),
      ([StrKey ''anonIntrinsics'', StrKey ''GeneratorFunction''], RootAbsent),
      ([StrKey ''anonIntrinsics'', StrKey ''AsyncFunction''], RootAbsent),
      ([StrKey ''anonIntrinsics'', StrKey ''AsyncGeneratorFunction''], RootAbsent),
      ([StrKey ''anonIntrinsics'', StrKey ''IteratorPrototype''], RootAbsent)],
     [\<lparr>own = [(StrKey ''prototype'', DataDesc (VRef 1) False False False)], proto = None\<rparr>,
      \<lparr>own = [(StrKey ''constructor'', AccessorDesc (VRef 0) False True),
               (StrKey ''message'', DataDesc (VStr '''') True False False),
               (StrKey ''name'', AccessorDesc (VStr ''Error'') False True)],
       proto = None\<rparr>])"
  unfolding policy_table
  by (simp add: repair_pass_def plan_def expand_value_def repair_def get_prop_def
      sample_roots_def sample_heap_def numeral_2_eq_2)

lemma sample_second_run:
  "fst (repair_pass (policy_of dataPropertiesToRepair) sample_roots
     (snd (repair_pass (policy_of dataPropertiesToRepair) sample_roots sample_heap))) =
    [([StrKey ''namedIntrinsics'', StrKey ''Object''], RootAbsent),
     ([StrKey ''namedIntrinsics'', StrKey ''Array''], RootAbsent),
     ([StrKey ''namedIntrinsics'', StrKey ''Function''], RootAbsent),
     ([StrKey ''namedIntrinsics'', StrKey ''Error'', StrKey ''prototype'',
       StrKey ''constructor''], AlreadyAccessor),
     ([StrKey ''namedIntrinsics'', StrKey ''Error'', StrKey ''prototype'',
       StrKey ''message''], NonConfigurable),
     ([StrKey ''namedIntrinsics'', StrKey ''Error'', StrKey ''prototype'',
       StrKey ''name''], AlreadyAccessor),
     ([StrKey ''namedIntrinsics'', StrKey ''Error'', StrKey ''prototype'',
       StrKey ''toString''], PropertyAbsent),
     ([StrKey ''namedIntrinsics'', StrKey ''TypeError''], RootAbsent),
     ([StrKey ''namedIntrinsics'', StrKey ''Promise''], RootAbsent),
     ([StrKey ''anonIntrinsics'', StrKey ''TypedArray''], RootAbsent),
     ([StrKey ''anonIntrinsics'', StrKey ''GeneratorFunction''], RootAbsent),
     ([StrKey ''anonIntrinsics'', StrKey ''AsyncFunction''], RootAbsent),
     ([StrKey ''anonIntrinsics'', StrKey ''AsyncGeneratorFunction''], RootAbsent),
     ([StrKey ''anonIntrinsics'', StrKey ''IteratorPrototype''], RootAbsent)]"
  unfolding sample_first_run snd_conv
  unfolding policy_table
  by (simp add: repair_pass_def plan_def expand_value_def repair_def get_prop_def
      sample_roots_def numeral_2_eq_2)

text \<open>
  C7, as stated: every outcome of the second run is AlreadyAccessor, RootAbsent or
  PropertyAbsent. This fails where a data property is not configurable: it cannot be
  repaired, stays a data property, and the second run reports NonConfigurable for it as
  the first did. Here the table is run on the sample runtime, whose
  \<^verbatim>\<open>Error.prototype.message\<close> is not configurable.
\<close>

theorem second_run_non_configurable:
  "([StrKey ''namedIntrinsics'', StrKey ''Error'', StrKey ''prototype'', StrKey ''message''],
    NonConfigurable)
     \<in> set (fst (repair_pass (policy_of dataPropertiesToRepair) sample_roots
          (snd (repair_pass (policy_of dataPropertiesToRepair) sample_roots sample_heap))))
   \<and> NonConfigurable \<notin> {AlreadyAccessor, RootAbsent, PropertyAbsent}"
  unfolding sample_second_run by simp

subsection \<open>The entry for Error.prototype\<close>























end
